theory Spec2Isabelle
  imports Main "HOL-Library.Word"
begin

unbundle bit_operations_syntax


section \<open>Vertex and arc bitsets\<close>

text \<open>
  Modelled from the spec: the header \<^verbatim>\<open>bitset64Vertices.h\<close> that \<^verbatim>\<open>bitset.h\<close> includes under
  \<^verbatim>\<open>USE_64_BIT\<close> is not among the sources; only \<^verbatim>\<open>MAXVERTICES = 64\<close> is.  The specification
  describes a bitset as a bitmask with \<open>N_max\<close> bits offering the empty set, singletons,
  add/remove/contains, union/intersection/difference, complement up to \<open>N\<close>, size, the smallest
  element strictly greater than \<open>i\<close> (or \<open>-1\<close>), ascending iteration and equality.  A bitset is a
  64-bit word here; elements are C \<^verbatim>\<open>int\<close>s, and a position outside \<open>0..63\<close> denotes no bit.
\<close>

type_synonym bitset = "64 word"

definition MAXVERTICES :: int where
  "MAXVERTICES = 64"

definition EMPTY :: bitset where
  "EMPTY = 0"

definition singleton :: "int \<Rightarrow> bitset" where
  "singleton i = (if 0 \<le> i then push_bit (nat i) 1 else 0)"

definition contains :: "bitset \<Rightarrow> int \<Rightarrow> bool" where
  "contains s i = (0 \<le> i \<and> bit s (nat i))"

definition add_bs :: "bitset \<Rightarrow> int \<Rightarrow> bitset" where
  "add_bs s i = s OR singleton i"

definition removeElement :: "bitset \<Rightarrow> int \<Rightarrow> bitset" where
  "removeElement s i = s AND NOT (singleton i)"

definition union_bs :: "bitset \<Rightarrow> bitset \<Rightarrow> bitset" where
  "union_bs s t = s OR t"

definition intersection :: "bitset \<Rightarrow> bitset \<Rightarrow> bitset" where
  "intersection s t = s AND t"

definition difference :: "bitset \<Rightarrow> bitset \<Rightarrow> bitset" where
  "difference s t = s AND NOT t"

definition complement :: "bitset \<Rightarrow> int \<Rightarrow> bitset" where
  "complement s n = NOT s AND mask (nat n)"

definition isEmpty :: "bitset \<Rightarrow> bool" where
  "isEmpty s = (s = 0)"

definition equals :: "bitset \<Rightarrow> bitset \<Rightarrow> bool" where
  "equals s t = (s = t)"

text \<open>The elements in ascending order: what \<^verbatim>\<open>forEach\<close> visits.\<close>

definition elements :: "bitset \<Rightarrow> int list" where
  "elements s = filter (contains s) (map int [0..<64])"

definition size_bs :: "bitset \<Rightarrow> int" where
  "size_bs s = int (length (elements s))"

definition next_bs :: "bitset \<Rightarrow> int \<Rightarrow> int" where
  "next_bs s i = (case filter (\<lambda>j. i < j) (elements s) of [] \<Rightarrow> -1 | j # _ \<Rightarrow> j)"

text \<open>\<^verbatim>\<open>#define isSubset(set1, set2) equals((set1), intersection((set1),(set2)))\<close>\<close>

definition isSubset :: "bitset \<Rightarrow> bitset \<Rightarrow> bool" where
  "isSubset set1 set2 = equals set1 (intersection set1 set2)"

section \<open>Counters and options\<close>

record counters =
  generatedOrientations :: nat
  mostGeneratedOrientations :: nat
  storedBitsets :: nat
  mostStoredBitsets :: nat
  orientationsGivingSubset :: nat
  orientationsGivingSuperset :: nat
  emptyBitsetsStored :: nat
  complementaryBitsets :: nat
  graphsSatisfyingOddnessCondition :: nat
  graphsNotSatisfyingOddnessCondition :: nat
  graphsSatisfyingFirstOddness :: nat
  graphsSatisfyingSecondOddness :: nat
  totalOrientationsGenerated :: nat

record options =
  bruteForceFlag :: bool
  complementFlag :: bool
  doublecheckFlag :: bool
  exhaustiveCheckFlag :: bool
  oddCyclesHeuristicFlag :: bool
  verboseFlag :: bool
  printFlag :: bool
  singleGraphFlag :: bool
  modulo :: int
  remainder :: int
  sizeOfArray :: nat

section \<open>Dynamic arrays\<close>

text \<open>
  The \<^verbatim>\<open>Array\<close> struct: \<open>array\<close> holds the \<open>used\<close> stored bitsets in order (the rest of the
  allocated block is never read), \<open>size\<close> is the capacity.  Allocation failure is not modelled.
\<close>

record Array =
  array :: "bitset list"
  size_arr :: nat

definition used :: "Array \<Rightarrow> nat" where
  "used a = length (array a)"

definition initArray :: "nat \<Rightarrow> Array" where
  "initArray initialSize = \<lparr>array = [], size_arr = initialSize\<rparr>"

definition insertArray :: "Array \<Rightarrow> bitset \<Rightarrow> Array" where
  "insertArray a element =
     \<lparr>array = array a @ [element],
      size_arr = (if used a = size_arr a then 2 * size_arr a else size_arr a)\<rparr>"

text \<open>\<^verbatim>\<open>insertArrayAtPos\<close> exits the process when the index is beyond the capacity: \<open>None\<close>.\<close>

definition insertArrayAtPos :: "Array \<Rightarrow> bitset \<Rightarrow> nat \<Rightarrow> Array option" where
  "insertArrayAtPos a element index =
     (if index > size_arr a then None
      else Some (a\<lparr>array := (array a)[index := element]\<rparr>))"

section \<open>The brute-force pool\<close>

datatype ('r, 's) flow = Return 'r | Continue 's

text \<open>
  The \<^verbatim>\<open>for\<close> loop of \<^verbatim>\<open>getIntermediateFrankNumber\<close> from index \<open>i\<close> on; \<open>n\<close> is
  \<^verbatim>\<open>bitsetsOfDeletableEdges->used\<close>, which the loop body changes only when it returns.
  The state is the counters, the array and \<^verbatim>\<open>insertPosition\<close>.
\<close>

function poolLoop ::
  "int \<Rightarrow> bitset \<Rightarrow> nat \<Rightarrow> nat \<Rightarrow> counters \<times> Array \<times> nat
     \<Rightarrow> (int \<times> counters \<times> Array, counters \<times> Array \<times> nat) flow" where
  "poolLoop numberOfVertices deletableEdges n i (numberOf, a, insertPosition) =
     (if i < n then
        (if \<not> isEmpty (array a ! i) then
           (if isSubset deletableEdges (array a ! i) then
              Return (0, numberOf\<lparr>orientationsGivingSubset := orientationsGivingSubset numberOf + 1\<rparr>, a)
            else
              let (numberOf1, a1) =
                    (if isSubset (array a ! i) deletableEdges then
                       ((if insertPosition = n
                         then numberOf\<lparr>orientationsGivingSuperset :=
                                orientationsGivingSuperset numberOf + 1\<rparr>
                         else numberOf),
                        a\<lparr>array := (array a)[i := EMPTY]\<rparr>)
                     else (numberOf, a))
              in if equals (union_bs deletableEdges (array a1 ! i))
                      (complement EMPTY (3 * numberOfVertices div 2)) then
                   Return (2, numberOf1\<lparr>complementaryBitsets := complementaryBitsets numberOf1 + 1\<rparr>,
                           insertArray a1 deletableEdges)
                 else poolLoop numberOfVertices deletableEdges n (i + 1)
                        (numberOf1, a1, insertPosition))
         else
           poolLoop numberOfVertices deletableEdges n (i + 1)
             (numberOf, a, if insertPosition = n then i else insertPosition))
      else Continue (numberOf, a, insertPosition))"
  by pat_completeness auto
termination
  by (relation "measure (\<lambda>(nv, d, n, i, s). n - i)") auto

text \<open>
  \<^verbatim>\<open>getIntermediateFrankNumber\<close>.  The parameters \<^verbatim>\<open>options\<close> and \<^verbatim>\<open>edgeNumbering\<close> are not
  used by the body.  The result is \<open>None\<close> when \<^verbatim>\<open>insertArrayAtPos\<close> exits.
\<close>

definition getIntermediateFrankNumber ::
  "counters \<Rightarrow> int \<Rightarrow> Array \<Rightarrow> bitset \<Rightarrow> (int \<times> counters \<times> Array) option" where
  "getIntermediateFrankNumber numberOf numberOfVertices bitsetsOfDeletableEdges deletableEdges =
     (case poolLoop numberOfVertices deletableEdges (used bitsetsOfDeletableEdges) 0
             (numberOf, bitsetsOfDeletableEdges, used bitsetsOfDeletableEdges) of
        Return r \<Rightarrow> Some r
      | Continue (numberOf1, a1, insertPosition) \<Rightarrow>
          (if insertPosition \<noteq> used bitsetsOfDeletableEdges then
             (case insertArrayAtPos a1 deletableEdges insertPosition of
                None \<Rightarrow> None
              | Some a2 \<Rightarrow> Some (0, numberOf1, a2))
           else Some (0, numberOf1, insertArray a1 deletableEdges)))"

section \<open>Basic facts about bitsets\<close>

lemma contains_bound: "contains s i \<Longrightarrow> 0 \<le> i \<and> i < 64"
  unfolding contains_def using bit_imp_le_length[of s "nat i"] by auto

lemma contains_singleton [simp]: "contains (singleton j) i \<longleftrightarrow> i = j \<and> 0 \<le> j \<and> j < 64"
  by (auto simp: contains_def singleton_def bit_simps)

lemma contains_EMPTY [simp]: "\<not> contains EMPTY i"
  by (simp add: contains_def EMPTY_def)

lemma contains_add_bs [simp]: "contains (add_bs s j) i \<longleftrightarrow> contains s i \<or> (i = j \<and> 0 \<le> j \<and> j < 64)"
  using contains_singleton[of j i] by (auto simp: contains_def add_bs_def bit_or_iff)

lemma contains_removeElement [simp]: "contains (removeElement s j) i \<longleftrightarrow> contains s i \<and> i \<noteq> j"
  using contains_singleton[of j i] contains_bound[of s i]
  by (auto simp: contains_def removeElement_def bit_and_iff bit_not_iff)

lemma contains_union_bs [simp]: "contains (union_bs s t) i \<longleftrightarrow> contains s i \<or> contains t i"
  by (auto simp: contains_def union_bs_def bit_or_iff)

lemma contains_intersection [simp]: "contains (intersection s t) i \<longleftrightarrow> contains s i \<and> contains t i"
  by (auto simp: contains_def intersection_def bit_and_iff)

lemma contains_difference [simp]: "contains (difference s t) i \<longleftrightarrow> contains s i \<and> \<not> contains t i"
  using contains_bound[of s i]
  by (auto simp: contains_def difference_def bit_and_iff bit_not_iff)

lemma contains_complement [simp]:
  "contains (complement s n) i \<longleftrightarrow> \<not> contains s i \<and> 0 \<le> i \<and> i < n \<and> i < 64"
  by (auto simp: contains_def complement_def bit_and_iff bit_not_iff bit_mask_iff)

lemma bitset_eqI: "(\<And>i. contains s i = contains t i) \<Longrightarrow> s = t"
proof (rule bit_eqI)
  fix n assume a: "\<And>i. contains s i = contains t i"
  from a[of "int n"] show "bit s n = bit t n" by (simp add: contains_def)
qed

lemma bitset_eq_iff: "s = t \<longleftrightarrow> (\<forall>i. contains s i = contains t i)"
  using bitset_eqI by auto

lemma equals_iff: "equals s t \<longleftrightarrow> (\<forall>i. contains s i = contains t i)"
  by (simp add: equals_def bitset_eq_iff)

lemma isSubset_iff: "isSubset s t \<longleftrightarrow> (\<forall>i. contains s i \<longrightarrow> contains t i)"
  by (auto simp: isSubset_def equals_iff)

lemma set_elements [simp]: "set (elements s) = {i. contains s i}"
proof -
  have "\<And>i. contains s i \<Longrightarrow> i \<in> int ` {0..<64}"
  proof -
    fix i assume "contains s i"
    then have "0 \<le> i" "i < 64" using contains_bound by auto
    then have "i = int (nat i)" "nat i \<in> {0..<64}" by auto
    then show "i \<in> int ` {0..<64}" by blast
  qed
  then show ?thesis by (auto simp: elements_def)
qed

lemma distinct_elements [simp]: "distinct (elements s)"
  by (simp add: elements_def distinct_map)

lemma sorted_elements [simp]: "sorted (elements s)"
proof -
  have "sorted (map int [0..<64])"
    by (simp add: sorted_map strict_mono_on_imp_mono_on sorted_wrt_map del: upt_Suc) 
  then show ?thesis unfolding elements_def by (rule sorted_wrt_filter)
qed

lemma length_filter_mono:
  "(\<And>x. x \<in> set xs \<Longrightarrow> P x \<Longrightarrow> Q x) \<Longrightarrow> length (filter P xs) \<le> length (filter Q xs)"
  by (induction xs) auto

lemma length_filter_strict:
  "(\<And>x. x \<in> set xs \<Longrightarrow> P x \<Longrightarrow> Q x) \<Longrightarrow> y \<in> set xs \<Longrightarrow> Q y \<Longrightarrow> \<not> P y
    \<Longrightarrow> length (filter P xs) < length (filter Q xs)"
proof (induction xs)
  case Nil then show ?case by simp
next
  case (Cons a xs)
  show ?case
  proof (cases "a = y")
    case True
    have "length (filter P xs) \<le> length (filter Q xs)"
      using Cons.prems(1) by (intro length_filter_mono) auto
    with True Cons.prems show ?thesis by auto
  next
    case False
    with Cons have "length (filter P xs) < length (filter Q xs)" by auto
    with Cons.prems(1)[of a] show ?thesis by auto
  qed
qed

lemma size_bs_mono: "(\<And>i. contains s i \<Longrightarrow> contains t i) \<Longrightarrow> size_bs s \<le> size_bs t"
proof -
  assume a: "\<And>i. contains s i \<Longrightarrow> contains t i"
  have "length (filter (contains s) (map int [0..<64])) \<le> length (filter (contains t) (map int [0..<64]))"
    by (rule length_filter_mono) (rule a)
  then show ?thesis by (simp only: size_bs_def elements_def of_nat_le_iff)
qed

lemma size_bs_strict:
  assumes "\<And>i. contains s i \<Longrightarrow> contains t i" "contains t j" "\<not> contains s j"
  shows "size_bs s < size_bs t"
proof -
  have "j \<in> set (map int [0..<64])" using contains_bound[OF assms(2)]
    by (auto simp: image_iff intro!: bexI[of _ "nat j"])
  from length_filter_strict[of "map int [0..<64]" "contains s" "contains t" j, OF assms(1) this assms(2,3)]
  show ?thesis by (simp only: size_bs_def elements_def of_nat_less_iff)
qed

lemma size_bs_nonneg [simp]: "0 \<le> size_bs s" by (simp add: size_bs_def)

lemma next_bs_cases:
  "next_bs s i = -1 \<and> (\<forall>j. contains s j \<longrightarrow> j \<le> i) \<or>
   (contains s (next_bs s i) \<and> i < next_bs s i \<and> (\<forall>j. contains s j \<and> i < j \<longrightarrow> next_bs s i \<le> j))"
proof (cases "filter (\<lambda>j. i < j) (elements s)")
  case Nil
  then have "\<forall>j\<in>set (elements s). \<not> i < j" by (simp add: filter_empty_conv)
  with Nil show ?thesis by (auto simp: next_bs_def)
next
  case (Cons a as)
  then have n: "next_bs s i = a" by (simp add: next_bs_def)
  have "a \<in> set (filter (\<lambda>j. i < j) (elements s))" using Cons by simp
  then have 1: "contains s a" "i < a" by auto
  have "sorted (filter (\<lambda>j. i < j) (elements s))" by (rule sorted_wrt_filter) simp
  then have "\<forall>b\<in>set as. a \<le> b" using Cons by simp
  moreover have "\<And>j. contains s j \<Longrightarrow> i < j \<Longrightarrow> j \<in> set (a # as)"
    using Cons[symmetric] by simp
  ultimately have "\<forall>j. contains s j \<and> i < j \<longrightarrow> a \<le> j" by auto
  with 1 n show ?thesis by simp
qed

section \<open>A faster enumeration of the elements\<close>

text \<open>
  For evaluation: the elements are read off the word bit by bit, stopping when no bit is left.
\<close>

function elementsFrom :: "int \<Rightarrow> bitset \<Rightarrow> int list" where
  "elementsFrom i s =
     (if s = 0 then [] else (if bit s 0 then [i] else []) @ elementsFrom (i + 1) (drop_bit 1 s))"
  by pat_completeness auto
termination
proof (relation "measure (\<lambda>(i, s). unat s)", goal_cases)
  case 1
  show ?case by simp
next
  case (2 i s)
  then have "unat s \<noteq> 0" by (simp add: unat_eq_0)
  then have "unat s div 2 < unat s" by simp
  then show ?case by (simp add: drop_bit_eq_div unat_div)
qed

declare elementsFrom.simps [simp del]

lemma filter_bit_top: "filter (bit (drop_bit 1 (s :: bitset))) [0..<64] = filter (bit (drop_bit 1 s)) [0..<63]"
proof -
  have "\<not> bit (drop_bit 1 s) 63"
    using bit_imp_le_length[of s 64] by (auto simp: bit_drop_bit_eq)
  moreover have "[0..<64] = [0..<63] @ [63]" by (simp add: upt_rec)
  ultimately show ?thesis by (simp del: upt_Suc)
qed

lemma elementsFrom_eq:
  "elementsFrom i s = map (\<lambda>j. i + int j) (filter (bit s) [0..<64])"
proof (induction i s rule: elementsFrom.induct)
  case (1 i s)
  show ?case
  proof (cases "s = 0")
    case True
    then show ?thesis by (subst elementsFrom.simps) (simp del: upt_Suc)
  next
    case False
    have split: "[0..<64] = 0 # map Suc [0..<63]"
      by (simp only: map_Suc_upt) (simp add: upt_rec)
    have shift: "filter (bit s) (map Suc [0..<63]) = map Suc (filter (bit (drop_bit 1 s)) [0..<63])"
      by (simp add: filter_map comp_def bit_Suc drop_bit_eq_div del: upt_Suc)
    have "elementsFrom i s = (if bit s 0 then [i] else []) @ elementsFrom (i + 1) (drop_bit 1 s)"
      using False by (subst elementsFrom.simps) simp
    also have "elementsFrom (i + 1) (drop_bit 1 s)
        = map (\<lambda>j. i + 1 + int j) (filter (bit (drop_bit 1 s)) [0..<63])"
      using 1[OF False] by (simp only: filter_bit_top)
    also have "\<dots> = map (\<lambda>j. i + int j) (filter (bit s) (map Suc [0..<63]))"
      by (simp only: shift) (simp add: comp_def add.assoc del: upt_Suc)
    finally show ?thesis
      by (subst split) (simp del: upt_Suc)
  qed
qed

lemma elements_code [code]: "elements s = elementsFrom 0 s"
proof -
  have "filter (contains s) (map int [0..<64]) = map int (filter (bit s) [0..<64])"
    by (simp add: filter_map comp_def contains_def del: upt_Suc)
  then show ?thesis by (simp add: elements_def elementsFrom_eq del: upt_Suc)
qed


section \<open>Digraphs, strong connectivity and deletable edges\<close>

record diGraph =
  numberOfVertices :: int
  adjacencyList :: "int \<Rightarrow> bitset"
  reverseAdjacencyList :: "int \<Rightarrow> bitset"
  numberOfArcs :: int

definition emptyGraph :: "diGraph \<Rightarrow> diGraph" where
  "emptyGraph g =
     g\<lparr>numberOfArcs := 0,
       adjacencyList := (\<lambda>i. if 0 \<le> i \<and> i < numberOfVertices g then EMPTY else adjacencyList g i),
       reverseAdjacencyList :=
         (\<lambda>i. if 0 \<le> i \<and> i < numberOfVertices g then EMPTY else reverseAdjacencyList g i)\<rparr>"

definition addArc :: "diGraph \<Rightarrow> int \<Rightarrow> int \<Rightarrow> diGraph" where
  "addArc g i j =
     g\<lparr>adjacencyList := (adjacencyList g)(i := add_bs (adjacencyList g i) j),
       numberOfArcs := numberOfArcs g + 1,
       reverseAdjacencyList := (reverseAdjacencyList g)(j := add_bs (reverseAdjacencyList g j) i)\<rparr>"

definition removeArc :: "diGraph \<Rightarrow> int \<Rightarrow> int \<Rightarrow> diGraph" where
  "removeArc g i j =
     g\<lparr>adjacencyList := (adjacencyList g)(i := removeElement (adjacencyList g i) j),
       numberOfArcs := numberOfArcs g - 1,
       reverseAdjacencyList := (reverseAdjacencyList g)(j := removeElement (reverseAdjacencyList g j) i)\<rparr>"

function visit :: "diGraph \<Rightarrow> int \<Rightarrow> bitset \<times> int list \<Rightarrow> bitset \<times> int list"
  and visitEach :: "diGraph \<Rightarrow> int list \<Rightarrow> bitset \<times> int list \<Rightarrow> bitset \<times> int list" where
  "visit g vertexToVisit (unvisitedVertices, L) =
     (if \<not> contains unvisitedVertices vertexToVisit then (unvisitedVertices, L)
      else (case visitEach g (elements (adjacencyList g vertexToVisit))
                   (removeElement unvisitedVertices vertexToVisit, L) of
              (unvisited1, L1) \<Rightarrow> (unvisited1, L1 @ [vertexToVisit])))"
| "visitEach g [] s = s"
| "visitEach g (outNeighbour # rest) s = visitEach g rest (visit g outNeighbour s)"
  by pat_completeness auto

lemma visit_shrinks:
  "visit_visitEach_dom (Inl (g, v, s)) \<Longrightarrow> contains (fst (visit g v s)) i \<Longrightarrow> contains (fst s) i"
  "visit_visitEach_dom (Inr (g, ws, s)) \<Longrightarrow> contains (fst (visitEach g ws s)) i \<Longrightarrow> contains (fst s) i"
proof (induction g v s and g ws s rule: visit_visitEach.pinduct)
  case (1 g v U L)
  then show ?case
    by (auto simp: visit.psimps split: if_splits prod.splits)
next
  case (2 g s)
  then show ?case by (simp add: visitEach.psimps)
next
  case (3 g w ws s)
  then show ?case by (simp add: visitEach.psimps)
qed

termination visit
proof (relation "inv_image (less_than <*lex*> less_than)
    (\<lambda>x. case x of Inl (g, v, s) \<Rightarrow> (nat (size_bs (fst s)), 0)
                  | Inr (g, ws, s) \<Rightarrow> (nat (size_bs (fst s)), Suc (length ws)))", goal_cases)
  case 1
  show ?case by (intro wf_inv_image wf_lex_prod wf_less_than)
next
  case (2 g v U L)
  have "size_bs (removeElement U v) < size_bs U"
    using 2 by (intro size_bs_strict[of _ _ v]) auto
  moreover have "0 \<le> size_bs (removeElement U v)" by simp
  ultimately have "nat (size_bs (removeElement U v)) < nat (size_bs U)" by linarith
  then show ?case by simp
next
  case (3 g w ws s)
  then show ?case by simp
next
  case (4 g w ws s)
  have "size_bs (fst (visit g w s)) \<le> size_bs (fst s)"
    using visit_shrinks(1)[OF 4] by (intro size_bs_mono) 
  then show ?case by auto
qed

function assign :: "diGraph \<Rightarrow> int \<Rightarrow> bitset \<Rightarrow> bitset"
  and assignEach :: "diGraph \<Rightarrow> int list \<Rightarrow> bitset \<Rightarrow> bitset" where
  "assign g vertex assignedVertices =
     (if contains assignedVertices vertex \<or> \<not> (0 \<le> vertex \<and> vertex < MAXVERTICES) then assignedVertices
      else assignEach g (elements (reverseAdjacencyList g vertex)) (add_bs assignedVertices vertex))"
| "assignEach g [] a = a"
| "assignEach g (inNeighbour # rest) a = assignEach g rest (assign g inNeighbour a)"
  by pat_completeness auto

lemma assign_grows:
  "assign_assignEach_dom (Inl (g, v, a)) \<Longrightarrow> contains a i \<Longrightarrow> contains (assign g v a) i"
  "assign_assignEach_dom (Inr (g, ws, a)) \<Longrightarrow> contains a i \<Longrightarrow> contains (assignEach g ws a) i"
proof (induction g v a and g ws a rule: assign_assignEach.pinduct)
  case (1 g v a)
  then show ?case
    by (auto simp: assign.psimps split: if_splits)
next
  case (2 g a)
  then show ?case by (simp add: assignEach.psimps)
next
  case (3 g w ws a)
  then show ?case by (simp add: assignEach.psimps)
qed

lemma size_bs_le_64: "size_bs s \<le> 64"
proof -
  have "length (filter (contains s) (map int [0..<64])) \<le> length (map int [0..<64])"
    by (rule length_filter_le)
  then show ?thesis by (simp only: size_bs_def elements_def) simp
qed

termination assign
proof (relation "inv_image (less_than <*lex*> less_than)
    (\<lambda>x. case x of Inl (g, v, a) \<Rightarrow> (nat (64 - size_bs a), 0)
                  | Inr (g, ws, a) \<Rightarrow> (nat (64 - size_bs a), Suc (length ws)))", goal_cases)
  case 1
  show ?case by (intro wf_inv_image wf_lex_prod wf_less_than)
next
  case (2 g v a)
  have "size_bs a < size_bs (add_bs a v)"
    using 2 by (intro size_bs_strict[of _ _ v]) (auto simp: MAXVERTICES_def)
  moreover have "size_bs (add_bs a v) \<le> 64" by (rule size_bs_le_64)
  ultimately have "nat (64 - size_bs (add_bs a v)) < nat (64 - size_bs a)" by linarith
  then show ?case by simp
next
  case (3 g w ws a)
  then show ?case by simp
next
  case (4 g w ws a)
  have "size_bs a \<le> size_bs (assign g w a)"
    using assign_grows(1)[OF 4] by (intro size_bs_mono)
  then show ?case by auto
qed

text \<open>isStronglyConnected: None when L is empty (the source then reads L[-1]).\<close>

definition isStronglyConnected :: "diGraph \<Rightarrow> bool option" where
  "isStronglyConnected g =
     (case fold (\<lambda>i s. visit g i s) (map int [0..<nat (numberOfVertices g)])
             (complement EMPTY (numberOfVertices g), []) of
        (unvisitedVertices, L) \<Rightarrow>
          if L = [] then None
          else Some (size_bs (assign g (last L) EMPTY) = numberOfVertices g))"

function containsDirectedPathBetween :: "diGraph \<Rightarrow> bitset \<Rightarrow> int \<Rightarrow> int \<Rightarrow> bool" where
  "containsDirectedPathBetween orientation unvisitedVertices i end' =
     (if contains (adjacencyList orientation i) end' then True
      else list_ex (\<lambda>element.
             containsDirectedPathBetween orientation (removeElement unvisitedVertices i) element end')
           (elements (intersection (adjacencyList orientation i) (removeElement unvisitedVertices i))))"
  by pat_completeness auto
termination
proof (relation "measure (\<lambda>(orientation, unvisitedVertices, i, end').
     2 * nat (size_bs unvisitedVertices) + (if contains unvisitedVertices i then 0 else 1))", goal_cases)
  case 1
  show ?case by simp
next
  case (2 orientation unvisitedVertices i end' element)
  then have e: "contains (removeElement unvisitedVertices i) element" by simp
  show ?case
  proof (cases "contains unvisitedVertices i")
    case True
    have "size_bs (removeElement unvisitedVertices i) < size_bs unvisitedVertices"
      using True by (intro size_bs_strict[of _ _ i]) auto
    moreover have "0 \<le> size_bs (removeElement unvisitedVertices i)" by simp
    ultimately have "nat (size_bs (removeElement unvisitedVertices i)) < nat (size_bs unvisitedVertices)"
      by linarith
    then show ?thesis using e True by simp
  next
    case False
    have "removeElement unvisitedVertices i = unvisitedVertices"
      using False by (intro bitset_eqI) auto
    then show ?thesis using e False by simp
  qed
qed

definition deletableStep ::
  "int \<Rightarrow> (int \<Rightarrow> int \<Rightarrow> int) \<Rightarrow> int \<Rightarrow> int \<Rightarrow> diGraph \<times> bitset \<Rightarrow> diGraph \<times> bitset" where
  "deletableStep n edgeNumbering i nbr s =
     (case s of (orientation, deletableEdges) \<Rightarrow>
        let orientation1 = removeArc orientation i nbr;
            deletableEdges1 =
              (if containsDirectedPathBetween orientation1 (complement EMPTY n) i nbr
               then add_bs deletableEdges (edgeNumbering i nbr) else deletableEdges)
        in (addArc orientation1 i nbr, deletableEdges1))"

definition getDeletableEdges ::
  "diGraph \<Rightarrow> int \<Rightarrow> (int \<Rightarrow> int \<Rightarrow> int) \<Rightarrow> diGraph \<times> bitset" where
  "getDeletableEdges orientation n edgeNumbering =
     fold (\<lambda>i s. fold (deletableStep n edgeNumbering i)
                    (elements (adjacencyList (fst s) i)) s)
       (map int [0..<nat n]) (orientation, EMPTY)"

definition numberEdges ::
  "(int \<Rightarrow> bitset) \<Rightarrow> int \<Rightarrow> (int \<Rightarrow> int \<Rightarrow> int) \<Rightarrow> int \<Rightarrow> int \<Rightarrow> int" where
  "numberEdges adj n edgeIndices =
     fst (fold (\<lambda>i s. fold (\<lambda>nbr (e, counter).
                   (e(i := (e i)(nbr := counter), nbr := (e nbr)(i := counter)), counter + 1))
                 (filter (\<lambda>nbr. i < nbr) (elements (adj i))) s)
            (map int [0..<nat n]) (edgeIndices, 0))"

definition K4 :: "int \<Rightarrow> bitset" where
  "K4 = (\<lambda>v. if v = 0 then 14 else if v = 1 then 13 else if v = 2 then 11 else if v = 3 then 7 else 0)"

definition cyc4 :: diGraph where
  "cyc4 = addArc (addArc (addArc (addArc (addArc (addArc
     (emptyGraph \<lparr>numberOfVertices = 4, adjacencyList = (\<lambda>_. EMPTY), reverseAdjacencyList = (\<lambda>_. EMPTY), numberOfArcs = 0\<rparr>)
      0 1) 1 2) 2 3) 3 0) 0 2) 1 3"


section \<open>The complementary-orientation solver\<close>

definition vertexOk :: "int \<Rightarrow> int \<Rightarrow> bool" where
  "vertexOk n v = (0 \<le> v \<and> v < n \<and> v < MAXVERTICES)"

definition otherEdgesAreNonDeletable ::
  "(int \<Rightarrow> bitset) \<Rightarrow> int \<Rightarrow> int \<Rightarrow> bitset \<Rightarrow> (int \<Rightarrow> int \<Rightarrow> int) \<Rightarrow> bool" where
  "otherEdgesAreNonDeletable adj x y deletableEdges edgeNumbering =
     list_all (\<lambda>element. element = y \<or> \<not> contains deletableEdges (edgeNumbering x element))
       (elements (adj x))"

definition arcRespectsRules ::
  "(int \<Rightarrow> bitset) \<Rightarrow> diGraph \<Rightarrow> int \<Rightarrow> int \<Rightarrow> bitset \<Rightarrow> (int \<Rightarrow> int \<Rightarrow> int) \<Rightarrow> bool" where
  "arcRespectsRules adj orientation x y deletableEdges edgeNumbering =
     (if contains deletableEdges (edgeNumbering x y) then
        list_all (\<lambda>element. element = y \<or> \<not> contains deletableEdges (edgeNumbering x element)
                    \<or> \<not> contains (adjacencyList orientation x) element) (elements (adj x)) \<and>
        list_all (\<lambda>element. element = x \<or> \<not> contains deletableEdges (edgeNumbering y element)
                    \<or> \<not> contains (reverseAdjacencyList orientation y) element) (elements (adj y))
      else
        \<not> (size_bs (adjacencyList orientation x) \<ge> 2 \<or> size_bs (reverseAdjacencyList orientation x) \<ge> 2) \<and>
        \<not> (size_bs (adjacencyList orientation y) \<ge> 2 \<or> size_bs (reverseAdjacencyList orientation y) \<ge> 2) \<and>
        (case filter (\<lambda>element. element \<noteq> y \<and> \<not> contains deletableEdges (edgeNumbering x element))
                (elements (adj x)) of
           [] \<Rightarrow> True
         | element # _ \<Rightarrow> \<not> contains (reverseAdjacencyList orientation x) y) \<and>
        (case filter (\<lambda>element. element \<noteq> x \<and> \<not> contains deletableEdges (edgeNumbering y element))
                (elements (adj y)) of
           [] \<Rightarrow> True
         | element # _ \<Rightarrow> \<not> contains (adjacencyList orientation y) x))"

definition andThen ::
  "(bool \<times> 's) option \<Rightarrow> ('s \<Rightarrow> (bool \<times> 's) option) \<Rightarrow> (bool \<times> 's) option" where
  "andThen r f = Option.bind r (\<lambda>p. if fst p then f (snd p) else Some (False, snd p))"

primrec forEachElement ::
  "int list \<Rightarrow> (int \<Rightarrow> 's \<Rightarrow> (bool \<times> 's) option) \<Rightarrow> 's \<Rightarrow> (bool \<times> 's) option" where
  "forEachElement [] body s = Some (True, s)"
| "forEachElement (element # rest) body s = andThen (body element s) (forEachElement rest body)"

lemma andThen_mono [partial_function_mono]:
  assumes "mono_option B" "\<And>s. mono_option (\<lambda>g. C g s)"
  shows "mono_option (\<lambda>g. andThen (B g) (C g))"
  unfolding andThen_def
  by (intro bind_mono if_mono option.const_mono assms)

lemma forEachElement_mono [partial_function_mono]:
  assumes "\<And>a s. mono_option (\<lambda>g. F g a s)"
  shows "mono_option (\<lambda>g. forEachElement as (F g) s)"
proof (induction as arbitrary: s)
  case Nil
  show ?case by (simp add: option.const_mono)
next
  case (Cons a as)
  show ?case unfolding forEachElement.simps
    by (rule andThen_mono) (rule assms, rule Cons)
qed

type_synonym addArcFn = "diGraph \<Rightarrow> int \<Rightarrow> int \<Rightarrow> (bool \<times> diGraph) option"

definition forceLastArcs :: "addArcFn \<Rightarrow> (int \<Rightarrow> bitset) \<Rightarrow> diGraph \<Rightarrow> int \<Rightarrow> int \<Rightarrow> (bool \<times> diGraph) option" where
  "forceLastArcs rec adj o1 x y =
     andThen
       (if size_bs (adjacencyList o1 x) = 2 \<and> size_bs (reverseAdjacencyList o1 x) < 1
        then rec o1 (next_bs (difference (adj x) (adjacencyList o1 x)) (-1)) x
        else Some (True, o1))
     (\<lambda>o2.
        if size_bs (adjacencyList o2 y) = 0 \<and> size_bs (reverseAdjacencyList o2 y) = 2
        then rec o2 y (next_bs (difference (adj y) (reverseAdjacencyList o2 y)) (-1))
        else Some (True, o2))"

definition propagateDeletable ::
  "addArcFn \<Rightarrow> (int \<Rightarrow> bitset) \<Rightarrow> diGraph \<Rightarrow> int \<Rightarrow> int \<Rightarrow> bitset \<Rightarrow> (int \<Rightarrow> int \<Rightarrow> int)
     \<Rightarrow> (bool \<times> diGraph) option" where
  "propagateDeletable rec adj o3 x y deletableEdges edgeNumbering =
     andThen (forEachElement (elements (adj x)) (\<lambda>element o'.
                if element = y then Some (True, o')
                else if contains deletableEdges (edgeNumbering x element) then rec o' element x
                else Some (True, o')) o3)
     (\<lambda>o4. andThen (forEachElement (elements (adj y)) (\<lambda>element o'.
                if element = x then Some (True, o')
                else if contains deletableEdges (edgeNumbering y element) then rec o' y element
                else Some (True, o')) o4)
     (\<lambda>o5. andThen
        (if otherEdgesAreNonDeletable adj x y deletableEdges edgeNumbering
         then forEachElement (elements (adj x)) (\<lambda>element o'.
                if element = y then Some (True, o') else rec o' element x) o5
         else Some (True, o5))
     (\<lambda>o6.
        if otherEdgesAreNonDeletable adj y x deletableEdges edgeNumbering
        then forEachElement (elements (adj y)) (\<lambda>element o'.
               if element = x then Some (True, o') else rec o' y element) o6
        else Some (True, o6))))"

definition propagateNonDeletable ::
  "addArcFn \<Rightarrow> (int \<Rightarrow> bitset) \<Rightarrow> diGraph \<Rightarrow> int \<Rightarrow> int \<Rightarrow> bitset \<Rightarrow> (int \<Rightarrow> int \<Rightarrow> int)
     \<Rightarrow> (bool \<times> diGraph) option" where
  "propagateNonDeletable rec adj o3 x y deletableEdges edgeNumbering =
     andThen
       (if size_bs (adjacencyList o3 y) = 0 \<and> size_bs (reverseAdjacencyList o3 y) = 2
        then rec o3 y (next_bs (difference (adj y) (adjacencyList o3 y)) (-1))
        else Some (True, o3))
     (\<lambda>o4. andThen
        (if size_bs (adjacencyList o4 y) = 1 \<and> size_bs (reverseAdjacencyList o4 y) = 1
         then rec o4 (next_bs (difference (adj y)
                (union_bs (adjacencyList o4 y) (reverseAdjacencyList o4 y))) (-1)) y
         else Some (True, o4))
     (\<lambda>o5. andThen
        (forEachElement
           (take 1 (filter (\<lambda>element. element \<noteq> y \<and>
                      \<not> contains deletableEdges (edgeNumbering x element)) (elements (adj x))))
           (\<lambda>element o'. rec o' x element) o5)
     (\<lambda>o6.
        forEachElement
          (take 1 (filter (\<lambda>element. element \<noteq> x \<and>
                     \<not> contains deletableEdges (edgeNumbering y element)) (elements (adj y))))
          (\<lambda>element o'. rec o' element y) o6)))"

lemma forceLastArcs_mono [partial_function_mono]:
  assumes "\<And>d u v. mono_option (\<lambda>f. R f d u v)"
  shows "mono_option (\<lambda>f. forceLastArcs (R f) adj o1 x y)"
  unfolding forceLastArcs_def
  by (intro andThen_mono if_mono option.const_mono assms)

lemma propagateDeletable_mono [partial_function_mono]:
  assumes "\<And>d u v. mono_option (\<lambda>f. R f d u v)"
  shows "mono_option (\<lambda>f. propagateDeletable (R f) adj o3 x y S en)"
  unfolding propagateDeletable_def
  by (intro andThen_mono forEachElement_mono if_mono option.const_mono assms)

lemma propagateNonDeletable_mono [partial_function_mono]:
  assumes "\<And>d u v. mono_option (\<lambda>f. R f d u v)"
  shows "mono_option (\<lambda>f. propagateNonDeletable (R f) adj o3 x y S en)"
  unfolding propagateNonDeletable_def
  by (intro andThen_mono forEachElement_mono if_mono option.const_mono assms)

partial_function (option) canAddNewArc ::
  "(int \<Rightarrow> bitset) \<Rightarrow> int \<Rightarrow> diGraph \<Rightarrow> int \<Rightarrow> int \<Rightarrow> bitset \<Rightarrow> (int \<Rightarrow> int \<Rightarrow> int)
     \<Rightarrow> (bool \<times> diGraph) option" where
  "canAddNewArc adj n orientation x y deletableEdges edgeNumbering =
     (if contains (adjacencyList orientation x) y then Some (True, orientation)
      else if contains (adjacencyList orientation y) x then Some (False, orientation)
      else if size_bs (adjacencyList orientation x) \<ge> 2 then Some (False, orientation)
      else if size_bs (reverseAdjacencyList orientation y) \<ge> 2 then Some (False, orientation)
      else if \<not> arcRespectsRules adj orientation x y deletableEdges edgeNumbering
        then Some (False, orientation)
      else
        andThen
          (forceLastArcs (\<lambda>d u v. canAddNewArc adj n d u v deletableEdges edgeNumbering)
             adj (addArc orientation x y) x y)
          (\<lambda>o3.
             if contains deletableEdges (edgeNumbering x y)
             then propagateDeletable
                    (\<lambda>d u v. canAddNewArc adj n d u v deletableEdges edgeNumbering)
                    adj o3 x y deletableEdges edgeNumbering
             else propagateNonDeletable
                    (\<lambda>d u v. canAddNewArc adj n d u v deletableEdges edgeNumbering)
                    adj o3 x y deletableEdges edgeNumbering))"

definition tdiv :: "int \<Rightarrow> int \<Rightarrow> int" where
  "tdiv a b = sgn a * sgn b * (\<bar>a\<bar> div \<bar>b\<bar>)"

definition restoreOrientation :: "int \<Rightarrow> diGraph \<Rightarrow> diGraph \<Rightarrow> diGraph" where
  "restoreOrientation n orientationCopy orientation =
     orientation\<lparr>adjacencyList :=
         (\<lambda>i. if 0 \<le> i \<and> i < n then adjacencyList orientationCopy i else adjacencyList orientation i),
       reverseAdjacencyList :=
         (\<lambda>i. if 0 \<le> i \<and> i < n then reverseAdjacencyList orientationCopy i
              else reverseAdjacencyList orientation i),
       numberOfArcs := numberOfArcs orientationCopy\<rparr>"

partial_function (option) canCompleteCompOrientation ::
  "(int \<Rightarrow> bitset) \<Rightarrow> int \<Rightarrow> diGraph \<Rightarrow> bitset \<Rightarrow> (int \<Rightarrow> int \<Rightarrow> int) \<Rightarrow> int \<Rightarrow> int
     \<Rightarrow> (bool \<times> diGraph) option" where
  "canCompleteCompOrientation adj n orientation deletableEdges edgeNumbering endpoint1 endpoint2 =
     (if endpoint2 = -1 \<and> endpoint1 < n - 1 then
        canCompleteCompOrientation adj n orientation deletableEdges edgeNumbering (endpoint1 + 1)
          (next_bs (adj (endpoint1 + 1)) (endpoint1 + 1))
      else if endpoint2 = -1 \<and> endpoint1 = n - 1 then
        (case getDeletableEdges orientation n edgeNumbering of
           (orientation1, complementDeletableEdges) \<Rightarrow>
             Some (equals (union_bs deletableEdges complementDeletableEdges)
                     (complement EMPTY (tdiv (3 * n) 2)), orientation1))
      else if contains (adjacencyList orientation endpoint1) endpoint2 \<or>
              contains (adjacencyList orientation endpoint2) endpoint1 then
        canCompleteCompOrientation adj n orientation deletableEdges edgeNumbering endpoint1
          (next_bs (adj endpoint1) endpoint2)
      else
        Option.bind
          (andThen (canAddNewArc adj n orientation endpoint1 endpoint2 deletableEdges edgeNumbering)
             (\<lambda>o1. canCompleteCompOrientation adj n o1 deletableEdges edgeNumbering endpoint1
                  (next_bs (adj endpoint1) endpoint2)))
          (\<lambda>(found, o2).
             if found then Some (True, o2)
             else andThen
                    (canAddNewArc adj n (restoreOrientation n orientation o2)
                       endpoint2 endpoint1 deletableEdges edgeNumbering)
                    (\<lambda>o3. canCompleteCompOrientation adj n o3 deletableEdges edgeNumbering endpoint1
                         (next_bs (adj endpoint1) endpoint2))))"

declare canAddNewArc.simps [code]
declare canCompleteCompOrientation.simps [code]

definition newDiGraph :: "int \<Rightarrow> diGraph" where
  "newDiGraph n = emptyGraph \<lparr>numberOfVertices = n, adjacencyList = (\<lambda>_. EMPTY),
     reverseAdjacencyList = (\<lambda>_. EMPTY), numberOfArcs = 0\<rparr>"

definition hasComplementaryOrientation ::
  "(int \<Rightarrow> bitset) \<Rightarrow> int \<Rightarrow> bitset \<Rightarrow> (int \<Rightarrow> int \<Rightarrow> int) \<Rightarrow> bool option" where
  "hasComplementaryOrientation adj n deletableEdgesOfOrientationTocomplement edgeNumbering =
     map_option fst
       (andThen (canAddNewArc adj n (newDiGraph n) 0 (next_bs (adj 0) (-1))
                   deletableEdgesOfOrientationTocomplement edgeNumbering)
          (\<lambda>orientation. canCompleteCompOrientation adj n orientation
                   deletableEdgesOfOrientationTocomplement edgeNumbering 0 (next_bs (adj 0) (-1))))"


section \<open>Orientation enumeration\<close>

text \<open>leaf of generateAllOrientations: lines 759-813\<close>

definition noIncidentEdgesDeletable ::
  "(int \<Rightarrow> bitset) \<Rightarrow> (int \<Rightarrow> int \<Rightarrow> int) \<Rightarrow> bitset \<Rightarrow> int \<Rightarrow> bool" where
  "noIncidentEdgesDeletable adj edgeNumbering deletableEdges i =
     list_all (\<lambda>nbr. \<not> contains deletableEdges (edgeNumbering i nbr)) (elements (adj i))"

definition skippedByRemainder :: "options \<Rightarrow> nat \<Rightarrow> bool option" where
  "skippedByRemainder opts totalGenerated =
     (if (of_int (modulo opts) :: 64 word) = 0 then None
      else Some ((of_nat totalGenerated :: 64 word) mod of_int (modulo opts) \<noteq> of_int (remainder opts)))"

definition orientationComplete ::
  "(int \<Rightarrow> bitset) \<Rightarrow> options \<Rightarrow> int \<Rightarrow> (int \<Rightarrow> int \<Rightarrow> int) \<Rightarrow> counters \<times> Array \<times> diGraph
     \<Rightarrow> (int \<times> counters \<times> Array \<times> diGraph) option" where
  "orientationComplete adj opts n edgeNumbering s =
     (case s of (numberOf, pool, orientation) \<Rightarrow>
      let numberOf1 = numberOf\<lparr>totalOrientationsGenerated := totalOrientationsGenerated numberOf + 1\<rparr> in
      Option.bind
        (if singleGraphFlag opts
         then skippedByRemainder opts (totalOrientationsGenerated numberOf1)
         else Some False)
      (\<lambda>skip.
        if skip then Some (0, numberOf1, pool, orientation)
        else Option.bind (isStronglyConnected orientation)
        (\<lambda>strong.
          if \<not> strong then Some (0, numberOf1, pool, orientation)
          else
            (case getDeletableEdges orientation n edgeNumbering of
               (orientation1, deletableEdges) \<Rightarrow>
                 if list_ex (noIncidentEdgesDeletable adj edgeNumbering deletableEdges)
                      (map int [0..<nat n])
                 then Some (0, numberOf1, pool, orientation1)
                 else
                   let numberOf2 = numberOf1\<lparr>generatedOrientations :=
                                      generatedOrientations numberOf1 + 1\<rparr> in
                   if \<not> bruteForceFlag opts then
                     Option.bind (hasComplementaryOrientation adj n deletableEdges edgeNumbering)
                       (\<lambda>found. Some (if found then 2 else 0, numberOf2, pool, orientation1))
                   else
                     Option.bind (getIntermediateFrankNumber numberOf2 n pool deletableEdges)
                       (\<lambda>(r, numberOf3, pool3). Some (r, numberOf3, pool3, orientation1))))))"

partial_function (option) generateAllOrientations ::
  "(int \<Rightarrow> bitset) \<Rightarrow> options \<Rightarrow> int \<Rightarrow> (int \<Rightarrow> int \<Rightarrow> int) \<Rightarrow> counters \<times> Array \<times> diGraph
     \<Rightarrow> int \<Rightarrow> int \<Rightarrow> (int \<times> counters \<times> Array \<times> diGraph) option" where
  "generateAllOrientations adj opts n edgeNumbering s endpoint1 endpoint2 =
     (if endpoint2 = -1 \<and> endpoint1 < n - 1 then
        generateAllOrientations adj opts n edgeNumbering s (endpoint1 + 1)
          (next_bs (adj (endpoint1 + 1)) (endpoint1 + 1))
      else if endpoint2 = -1 \<and> endpoint1 = n - 1 then
        orientationComplete adj opts n edgeNumbering s
      else
        (case s of (numberOf, pool, orientation) \<Rightarrow>
         Option.bind
           (let o1 = addArc orientation endpoint1 endpoint2 in
            if size_bs (adjacencyList o1 endpoint1) \<noteq> 3 \<and>
               size_bs (reverseAdjacencyList o1 endpoint2) \<noteq> 3
            then generateAllOrientations adj opts n edgeNumbering (numberOf, pool, o1) endpoint1
                   (next_bs (adj endpoint1) endpoint2)
            else Some (0, numberOf, pool, o1))
         (\<lambda>(frankNumberUpperBound, numberOf1, pool1, o1').
            let o2 = removeArc o1' endpoint1 endpoint2 in
            if frankNumberUpperBound \<noteq> 0 then Some (frankNumberUpperBound, numberOf1, pool1, o2)
            else
              Option.bind
                (let o3 = addArc o2 endpoint2 endpoint1 in
                 if size_bs (reverseAdjacencyList o3 endpoint1) \<noteq> 3 \<and>
                    size_bs (adjacencyList o3 endpoint2) \<noteq> 3
                 then generateAllOrientations adj opts n edgeNumbering (numberOf1, pool1, o3)
                        endpoint1 (next_bs (adj endpoint1) endpoint2)
                 else Some (0, numberOf1, pool1, o3))
              (\<lambda>(frankNumberUpperBound2, numberOf2, pool2, o3').
                 Some (frankNumberUpperBound2, numberOf2, pool2,
                       removeArc o3' endpoint2 endpoint1)))))"

declare generateAllOrientations.simps [code]

definition findFrankNumber ::
  "(int \<Rightarrow> bitset) \<Rightarrow> int \<Rightarrow> options \<Rightarrow> counters \<Rightarrow> (int \<Rightarrow> int \<Rightarrow> int)
     \<Rightarrow> (int \<times> options \<times> counters) option" where
  "findFrankNumber adj n opts numberOf uninitialised =
     (let bitsetsOfDeletableEdges = initArray (sizeOfArray opts);
          edgeNumbering = numberEdges adj n uninitialised
      in Option.bind
           (generateAllOrientations adj opts n edgeNumbering
              (numberOf, bitsetsOfDeletableEdges, newDiGraph n) (-1) (-1))
           (\<lambda>(frankNumber, numberOf1, pool, orientation).
              if bruteForceFlag opts then
                let numberOf2 = numberOf1\<lparr>storedBitsets := used pool\<rparr>;
                    opts1 = (if storedBitsets numberOf2 > sizeOfArray opts
                             then opts\<lparr>sizeOfArray := size_arr pool\<rparr> else opts);
                    numberOf3 = numberOf2\<lparr>emptyBitsetsStored := emptyBitsetsStored numberOf2 +
                                   length (filter isEmpty (array pool))\<rparr>
                in Some (frankNumber, opts1, numberOf3)
              else Some (frankNumber, opts, numberOf1)))"

definition optsExact :: options where
  "optsExact = \<lparr>bruteForceFlag = False, complementFlag = False, doublecheckFlag = False,
     exhaustiveCheckFlag = True, oddCyclesHeuristicFlag = False, verboseFlag = False,
     printFlag = False, singleGraphFlag = False, modulo = 1, remainder = 0, sizeOfArray = 100000\<rparr>"

definition K4en :: "int \<Rightarrow> int \<Rightarrow> int" where
  "K4en = (\<lambda>u v. if (u = 0 \<and> v = 1) \<or> (u = 1 \<and> v = 0) then 0
               else if (u = 0 \<and> v = 2) \<or> (u = 2 \<and> v = 0) then 1
               else if (u = 0 \<and> v = 3) \<or> (u = 3 \<and> v = 0) then 2
               else if (u = 1 \<and> v = 2) \<or> (u = 2 \<and> v = 1) then 3
               else if (u = 1 \<and> v = 3) \<or> (u = 3 \<and> v = 1) then 4
               else if (u = 2 \<and> v = 3) \<or> (u = 3 \<and> v = 2) then 5 else 0)"


section \<open>graph6 reading\<close>

definition cval :: "char \<Rightarrow> int" where
  "cval c = (let v = of_char c in if v \<ge> 128 then v - 256 else v)"

definition charAt :: "string \<Rightarrow> int \<Rightarrow> int option" where
  "charAt graphString index =
     (if 0 \<le> index \<and> index < int (length graphString) then Some (cval (graphString ! nat index))
      else if index = int (length graphString) then Some 0
      else None)"

definition readNumber :: "string \<Rightarrow> int \<Rightarrow> nat \<Rightarrow> int option" where
  "readNumber graphString index k =
     fold (\<lambda>j acc. Option.bind acc (\<lambda>number. Option.bind (charAt graphString (index + int j))
             (\<lambda>c. Some (or number (push_bit ((k - 1 - j) * 6) (c - 63))))))
       [0..<k] (Some 0)"

definition getNumberOfVertices :: "string \<Rightarrow> int option" where
  "getNumberOfVertices graphString =
     (if length graphString = 0 then Some (-1)
      else
        let c0 = cval (graphString ! 0) in
        if (c0 < 63 \<or> c0 > 126) \<and> c0 \<noteq> cval (CHR ''>'') \<and> c0 \<noteq> cval (CHR ''&'') then Some (-1)
        else
          Option.bind
            (if c0 = cval (CHR ''>'') then
               (if CHR ''<'' \<in> set graphString
                then Some (int (length (takeWhile (\<lambda>c. c \<noteq> CHR ''<'') graphString)) + 1)
                else None)
             else Some 0)
          (\<lambda>index0.
             Option.bind (charAt graphString index0)
             (\<lambda>c. let index = (if c = cval (CHR ''&'') then index0 + 1 else index0) in
               Option.bind (charAt graphString index)
               (\<lambda>c1. if c1 < 126 then Some (c1 - 63)
                  else Option.bind (charAt graphString (index + 1))
                  (\<lambda>c2. if c2 < 126 then readNumber graphString (index + 1) 3
                     else Option.bind (charAt graphString (index + 2))
                     (\<lambda>c3. if c3 < 126 then readNumber graphString (index + 2) 6
                        else Some (-1)))))))"

definition prev :: "int \<Rightarrow> int \<Rightarrow> int" where
  "prev character current =
     (case filter (\<lambda>j. bit (word_of_int character :: 32 word) (nat j))
             (rev (map int [0..<nat current])) of
        [] \<Rightarrow> -1
      | j # _ \<Rightarrow> j)"

function advanceVertex :: "int \<Rightarrow> int \<times> int \<Rightarrow> int \<times> int" where
  "advanceVertex position (edgeSum, currentVertex) =
     (if position - edgeSum \<ge> 0 then advanceVertex position (edgeSum + currentVertex, currentVertex + 1)
      else (edgeSum, currentVertex))"
  by pat_completeness auto
termination
  by (relation "measures [\<lambda>(p, s, c). nat (1 - c), \<lambda>(p, s, c). nat (p - s + 1)]") auto

definition addEdgeBit ::
  "int \<Rightarrow> (int \<times> int \<times> (int \<Rightarrow> bitset)) \<Rightarrow> (int \<times> int \<times> (int \<Rightarrow> bitset))" where
  "addEdgeBit position s =
     (case s of (currentVertex, edgeSum, adjList) \<Rightarrow>
        (case advanceVertex position (edgeSum, currentVertex) of
           (edgeSum1, currentVertex1) \<Rightarrow>
             let currentVertex2 = currentVertex1 - 1;
                 edgeSum2 = edgeSum1 - currentVertex2;
                 neighbour = position - edgeSum2;
                 adjList1 = adjList(currentVertex2 :=
                                    add_bs (adjList currentVertex2) neighbour);
                 adjList2 = adjList1(neighbour :=
                                    add_bs (adjList1 neighbour) currentVertex2)
             in (currentVertex2, edgeSum2, adjList2)))"

lemma prev_bounds: "- 1 \<le> prev character current \<and> (0 \<le> current \<longrightarrow> prev character current < current)"
proof (cases "filter (\<lambda>j. bit (word_of_int character :: 32 word) (nat j)) (rev (map int [0..<nat current]))")
  case Nil
  then show ?thesis by (simp add: prev_def)
next
  case (Cons j js)
  then have "j \<in> set (filter (\<lambda>j. bit (word_of_int character :: 32 word) (nat j)) (rev (map int [0..<nat current])))"
    by simp
  then have "j \<in> int ` {0..<nat current}" by simp
  then have "0 \<le> j \<and> j < current" by auto
  with Cons show ?thesis by (simp add: prev_def)
qed

function setBits :: "int \<Rightarrow> int \<Rightarrow> int list" where
  "setBits character i = (if i < 0 then [] else i # setBits character (prev character i))"
  by pat_completeness auto
termination
proof (relation "measure (\<lambda>(c, i). nat (i + 1))", goal_cases)
  case 1
  show ?case by simp
next
  case (2 character i)
  then show ?case using prev_bounds[of character i] by simp
qed

primrec readEdgeChars ::
  "char list \<Rightarrow> int \<Rightarrow> (int \<times> int \<times> (int \<Rightarrow> bitset)) \<Rightarrow> int \<times> (int \<Rightarrow> bitset)" where
  "readEdgeChars [] offset s = (-1, snd (snd s))"
| "readEdgeChars (c # rest) offset s =
     (if c = CHR 0x0A then (0, snd (snd s))
      else if cval c = 0 then (-1, snd (snd s))
      else readEdgeChars rest (offset + 1)
             (fold (\<lambda>i. addEdgeBit (5 - i + offset * 6))
                (setBits (cval c - 63) (prev (cval c - 63) 6)) s))"

definition loadGraph :: "string \<Rightarrow> int \<Rightarrow> (int \<Rightarrow> bitset) \<Rightarrow> int \<times> (int \<Rightarrow> bitset)" where
  "loadGraph graphString n adjList =
     (let startIndex0 = (if graphString \<noteq> [] \<and> graphString ! 0 = CHR ''>'' then 10 else 0) in
      if n \<le> 62 \<or> n \<le> MAXVERTICES then
        let startIndex = (if n \<le> 62 then startIndex0 + 1 else startIndex0 + 4);
            cleared = (\<lambda>vertex. if 0 \<le> vertex \<and> vertex < n then EMPTY else adjList vertex)
        in readEdgeChars (drop startIndex graphString) 0 (1, 0, cleared)
      else (-1, adjList))"

definition acceptGraph :: "string \<Rightarrow> (int \<Rightarrow> bitset) \<Rightarrow> (int \<times> (int \<Rightarrow> bitset)) option option" where
  "acceptGraph graphString uninitialised =
     (case getNumberOfVertices graphString of
        None \<Rightarrow> None
      | Some n \<Rightarrow>
          Some (if n = -1 \<or> n > MAXVERTICES then None
                else if tdiv (n * 3) 2 > MAXVERTICES then None
                else (case loadGraph graphString n uninitialised of
                        (r, adjList) \<Rightarrow> if r = -1 then None else Some (n, adjList))))"


section \<open>heuristic enumeration\<close>

primrec tryEach ::
  "'a list \<Rightarrow> ('a \<Rightarrow> 's \<Rightarrow> (bool \<times> 's) option) \<Rightarrow> 's \<Rightarrow> (bool \<times> 's) option" where
  "tryEach [] body s = Some (False, s)"
| "tryEach (a # rest) body s =
     Option.bind (body a s) (\<lambda>r. if fst r then Some (True, snd r) else tryEach rest body (snd r))"

lemma tryEach_cong [fundef_cong]:
  "xs = ys \<Longrightarrow> (\<And>a s. a \<in> set ys \<Longrightarrow> f a s = g a s) \<Longrightarrow> s = t
     \<Longrightarrow> tryEach xs f s = tryEach ys g t"
proof (induction ys arbitrary: xs s t)
  case Nil
  then show ?case by simp
next
  case (Cons a ys)
  then show ?case by (auto intro!: Option.bind_cong)
qed

function hasSufficientCondition ::
  "((int \<Rightarrow> int) \<Rightarrow> bool option) \<Rightarrow> (int \<Rightarrow> bitset) \<Rightarrow> bitset \<Rightarrow> (int \<Rightarrow> int)
     \<Rightarrow> (bool \<times> (int \<Rightarrow> int)) option" where
  "hasSufficientCondition configurationTest adj remainingVertices F =
     (let nextVertex = next_bs remainingVertices (-1) in
      if nextVertex = -1 then map_option (\<lambda>b. (b, F)) (configurationTest F)
      else tryEach (elements (intersection (adj nextVertex) remainingVertices))
             (\<lambda>neighbor F1.
                hasSufficientCondition configurationTest adj
                  (difference remainingVertices (union_bs (singleton nextVertex) (singleton neighbor)))
                  (F1(neighbor := nextVertex, nextVertex := neighbor)))
             F)"
  by pat_completeness auto
termination
proof (relation "measure (\<lambda>(ct, adj, rem, F). nat (size_bs rem))", goal_cases)
  case 1
  show ?case by simp
next
  case (2 ct adj rem F nextVertex neighbor F1)
  have c: "contains rem (next_bs rem (-1))"
    using next_bs_cases[of rem "-1"] 2 by auto
  have "size_bs (difference rem (union_bs (singleton (next_bs rem (-1))) (singleton neighbor))) < size_bs rem"
    using c contains_bound[OF c]
    by (intro size_bs_strict[of _ _ "next_bs rem (-1)"]) auto
  moreover have "0 \<le> size_bs (difference rem (union_bs (singleton (next_bs rem (-1))) (singleton neighbor)))"
    by simp
  ultimately have "nat (size_bs (difference rem (union_bs (singleton (next_bs rem (-1))) (singleton neighbor))))
     < nat (size_bs rem)" by linarith
  then show ?case using 2 by simp
qed

definition noPMadj :: "int \<Rightarrow> bitset" where
  "noPMadj = (\<lambda>v. if 0 \<le> v \<and> v < 16 then
     [2114, 2060, 50, 50, 44, 44, 16898, 385, 1600, 1600, 1408, 1408, 12289, 51200, 51200, 45056] ! nat v else 0)"


section \<open>checks of verifyOddnessHeuristicOrientations\<close>

datatype outcome = Completed | Aborted

definition verifyOrientations ::
  "int \<Rightarrow> (int \<Rightarrow> int \<Rightarrow> int) \<Rightarrow> diGraph \<Rightarrow> diGraph \<Rightarrow> outcome option" where
  "verifyOrientations n edgeNumbering orientation1 orientation2 =
     Option.bind (isStronglyConnected orientation1)
     (\<lambda>strong1.
        Option.bind (if \<not> strong1 then Some True else map_option Not (isStronglyConnected orientation2))
        (\<lambda>notBothStrong.
           if notBothStrong then Some Aborted
           else
             let deletableEdges1 = snd (getDeletableEdges orientation1 n edgeNumbering);
                 deletableEdges2 = snd (getDeletableEdges orientation2 n edgeNumbering)
             in if \<not> equals (union_bs deletableEdges1 deletableEdges2)
                       (complement EMPTY (tdiv (3 * n) 2))
                then Some Aborted else Some Completed))"

section \<open>driver\<close>

definition classifyGraph ::
  "((int \<Rightarrow> int) \<Rightarrow> bool option) \<Rightarrow> options \<Rightarrow> counters \<Rightarrow> (int \<Rightarrow> bitset) \<Rightarrow> int
     \<Rightarrow> (int \<Rightarrow> int) \<Rightarrow> (int \<Rightarrow> int \<Rightarrow> int) \<Rightarrow> int option" where
  "classifyGraph configurationTest opts numberOf adj n F uninitialised =
     Option.bind
       (if oddCyclesHeuristicFlag opts
        then map_option (\<lambda>r. if fst r then 2 else 0)
               (hasSufficientCondition configurationTest adj (complement EMPTY n) F)
        else Some 0)
     (\<lambda>frankNumber.
        if exhaustiveCheckFlag opts \<and> frankNumber = 0
        then map_option fst (findFrankNumber adj n opts numberOf uninitialised)
        else Some frankNumber)"

definition writesGraph :: "options \<Rightarrow> int \<Rightarrow> bool" where
  "writesGraph opts frankNumber =
     ((frankNumber = 0 \<and> \<not> complementFlag opts) \<or> (frankNumber = 2 \<and> complementFlag opts))"

section \<open>The pool keeps an antichain\<close>

text \<open>
  No stored non-empty set is a subset of another stored non-empty set.
\<close>

definition pairwiseIncomparable :: "bitset list \<Rightarrow> bool" where
  "pairwiseIncomparable xs =
     (\<forall>i\<in>{0..<length xs}. \<forall>j\<in>{0..<length xs}. i \<noteq> j \<and> \<not> isEmpty (xs ! i) \<and> \<not> isEmpty (xs ! j)
         \<longrightarrow> \<not> isSubset (xs ! i) (xs ! j))"

text \<open>
  A run of calls on one pool that goes on as long as each call returns 0.
\<close>

fun poolRun :: "counters \<Rightarrow> int \<Rightarrow> Array \<Rightarrow> bitset list \<Rightarrow> (counters \<times> Array) option" where
  "poolRun numberOf nv a [] = Some (numberOf, a)"
| "poolRun numberOf nv a (d # ds) =
     (case getIntermediateFrankNumber numberOf nv a d of
        None \<Rightarrow> None
      | Some (r, numberOf1, a1) \<Rightarrow> if r = 0 then poolRun numberOf1 nv a1 ds else None)"

lemma pairwiseIncomparable_iff:
  "pairwiseIncomparable xs =
     (\<forall>i<length xs. \<forall>j<length xs. i \<noteq> j \<and> \<not> isEmpty (xs ! i) \<and> \<not> isEmpty (xs ! j)
         \<longrightarrow> \<not> isSubset (xs ! i) (xs ! j))"
  unfolding pairwiseIncomparable_def by (simp add: Ball_def)

definition incomparableBelow :: "bitset \<Rightarrow> bitset list \<Rightarrow> nat \<Rightarrow> bool" where
  "incomparableBelow d xs i =
     (\<forall>j<i. \<not> isEmpty (xs ! j) \<longrightarrow> \<not> isSubset d (xs ! j) \<and> \<not> isSubset (xs ! j) d)"

lemma isEmpty_EMPTY [simp]: "isEmpty EMPTY"
  by (simp add: isEmpty_def EMPTY_def)

lemma pairwiseIncomparable_tombstone:
  "pairwiseIncomparable xs \<Longrightarrow> pairwiseIncomparable (xs[i := EMPTY])"
  by (cases "i < length xs")
    (auto simp: pairwiseIncomparable_iff nth_list_update list_update_beyond split: if_splits)

lemma incomparableBelow_tombstone:
  "incomparableBelow d xs i \<Longrightarrow> incomparableBelow d (xs[k := EMPTY]) i"
  by (cases "k < length xs")
    (auto simp: incomparableBelow_def nth_list_update list_update_beyond split: if_splits)

lemma incomparableBelow_Suc:
  "incomparableBelow d xs i \<Longrightarrow>
   (\<not> isEmpty (xs ! i) \<Longrightarrow> \<not> isSubset d (xs ! i) \<and> \<not> isSubset (xs ! i) d) \<Longrightarrow>
   incomparableBelow d xs (Suc i)"
  unfolding incomparableBelow_def
  by (auto simp: less_Suc_eq)

declare poolLoop.simps [simp del]

lemma poolLoop_inv:
  assumes "pairwiseIncomparable (array a)" "length (array a) = n" "i \<le> n"
    "incomparableBelow d (array a) i"
    "ip \<noteq> n \<longrightarrow> ip < n \<and> isEmpty (array a ! ip)"
  shows "(\<forall>nf' a'. poolLoop nv d n i (nf, a, ip) = Return (0, nf', a')
            \<longrightarrow> pairwiseIncomparable (array a')) \<and>
         (\<forall>nf' a' ip'. poolLoop nv d n i (nf, a, ip) = Continue (nf', a', ip')
            \<longrightarrow> pairwiseIncomparable (array a') \<and> length (array a') = n \<and>
                incomparableBelow d (array a') n \<and>
                (ip' \<noteq> n \<longrightarrow> ip' < n \<and> isEmpty (array a' ! ip')))"
  using assms
proof (induction nv d n i "(nf, a, ip)" arbitrary: nf a ip rule: poolLoop.induct)
  case (1 nv d n i nf a ip)
  show ?case
  proof (cases "i < n")
    case False
    with "1.prems" show ?thesis by (subst poolLoop.simps, subst (2) poolLoop.simps) simp
  next
    case lt: True
    show ?thesis
    proof (cases "isEmpty (array a ! i)")
      case True
      let ?ip = "if ip = n then i else ip"
      have step: "poolLoop nv d n i (nf, a, ip) = poolLoop nv d n (i + 1) (nf, a, ?ip)"
        using lt True by (subst poolLoop.simps) simp
      have ib: "incomparableBelow d (array a) (i + 1)"
        using incomparableBelow_Suc[OF "1.prems"(4)] True by simp
      have ipok: "?ip \<noteq> n \<longrightarrow> ?ip < n \<and> isEmpty (array a ! ?ip)"
        using "1.prems"(5) lt True by auto
      have "i + 1 \<le> n" using lt by simp
      from "1.hyps"(2)[OF lt _ "1.prems"(1) "1.prems"(2) this ib ipok] True
      show ?thesis unfolding step by simp
    next
      case ne: False
      show ?thesis
      proof (cases "isSubset d (array a ! i)")
        case True
        with lt ne "1.prems"(1) show ?thesis by (subst poolLoop.simps, subst (2) poolLoop.simps) simp
      next
        case nsub: False
        define nf1 where "nf1 = (if isSubset (array a ! i) d then
                       (if ip = n
                         then nf\<lparr>orientationsGivingSuperset :=
                                orientationsGivingSuperset nf + 1\<rparr>
                         else nf) else nf)"
        define a1 where "a1 = (if isSubset (array a ! i) d then a\<lparr>array := (array a)[i := EMPTY]\<rparr> else a)"
        have pr: "(if isSubset (array a ! i) d then
                       ((if ip = n
                         then nf\<lparr>orientationsGivingSuperset :=
                                orientationsGivingSuperset nf + 1\<rparr>
                         else nf),
                        a\<lparr>array := (array a)[i := EMPTY]\<rparr>)
                     else (nf, a)) = (nf1, a1)"
          by (simp add: nf1_def a1_def)
        have pi1: "pairwiseIncomparable (array a1)"
          using "1.prems"(1) by (simp add: a1_def pairwiseIncomparable_tombstone)
        have len1: "length (array a1) = n" using "1.prems"(2) by (simp add: a1_def)
        have ib1: "incomparableBelow d (array a1) (i + 1)"
        proof -
          have "incomparableBelow d (array a1) i"
            using "1.prems"(4) by (simp add: a1_def incomparableBelow_tombstone)
          moreover have "\<not> isEmpty (array a1 ! i) \<Longrightarrow>
              \<not> isSubset d (array a1 ! i) \<and> \<not> isSubset (array a1 ! i) d"
            using nsub lt "1.prems"(2) by (auto simp: a1_def split: if_splits)
          ultimately show ?thesis using incomparableBelow_Suc by simp
        qed
        have ip1: "ip \<noteq> n \<longrightarrow> ip < n \<and> isEmpty (array a1 ! ip)"
          using "1.prems"(5) "1.prems"(2) lt by (auto simp: a1_def nth_list_update)
        show ?thesis
        proof (cases "equals (union_bs d (array a1 ! i)) (complement EMPTY (3 * nv div 2))")
          case True
          then show ?thesis using lt ne nsub pr
            by (subst poolLoop.simps, subst (2) poolLoop.simps) (simp add: Let_def)
        next
          case False
          have step: "poolLoop nv d n i (nf, a, ip) = poolLoop nv d n (i + 1) (nf1, a1, ip)"
            using lt ne nsub pr False by (subst poolLoop.simps) (simp add: Let_def)
          have "i + 1 \<le> n" using lt by simp
          from "1.hyps"(1)[OF lt ne nsub refl pr[symmetric] False pi1 len1 this ib1 ip1]
          show ?thesis unfolding step by simp
        qed
      qed
    qed
  qed
qed


lemma pairwiseIncomparable_insert:
  assumes "pairwiseIncomparable xs" "incomparableBelow d xs (length xs)"
  shows "pairwiseIncomparable (xs @ [d])"
    and "ip < length xs \<Longrightarrow> pairwiseIncomparable (xs[ip := d])"
  using assms
  unfolding pairwiseIncomparable_iff incomparableBelow_def
  by (auto simp: nth_append nth_list_update less_Suc_eq split: if_splits)

lemma getIntermediateFrankNumber_inv:
  assumes "pairwiseIncomparable (array a)"
    and "getIntermediateFrankNumber nf nv a d = Some (0, nf', a')"
  shows "pairwiseIncomparable (array a')"
proof -
  have ib0: "incomparableBelow d (array a) 0" by (simp add: incomparableBelow_def)
  have inv: "(\<forall>nf' a'. poolLoop nv d (length (array a)) 0 (nf, a, length (array a)) = Return (0, nf', a')
            \<longrightarrow> pairwiseIncomparable (array a')) \<and>
         (\<forall>nf' a' ip'. poolLoop nv d (length (array a)) 0 (nf, a, length (array a)) = Continue (nf', a', ip')
            \<longrightarrow> pairwiseIncomparable (array a') \<and> length (array a') = length (array a) \<and>
                incomparableBelow d (array a') (length (array a)) \<and>
                (ip' \<noteq> length (array a) \<longrightarrow> ip' < length (array a) \<and> isEmpty (array a' ! ip')))"
    by (rule poolLoop_inv[OF assms(1) refl le0 ib0]) simp
  let ?n = "length (array a)"
  show ?thesis
  proof (cases "poolLoop nv d ?n 0 (nf, a, ?n)")
    case (Return r)
    with assms(2) have "r = (0, nf', a')"
      by (simp add: getIntermediateFrankNumber_def used_def)
    with Return inv show ?thesis by blast
  next
    case (Continue s)
    obtain nf1 a1 ip where s: "s = (nf1, a1, ip)" by (cases s) auto
    from inv Continue s have *: "pairwiseIncomparable (array a1)" "length (array a1) = ?n"
      "incomparableBelow d (array a1) ?n"
      "ip \<noteq> ?n \<longrightarrow> ip < ?n \<and> isEmpty (array a1 ! ip)"
      by blast+
    show ?thesis
    proof (cases "ip = ?n")
      case True
      with assms(2) Continue s have "a' = insertArray a1 d"
        by (simp add: getIntermediateFrankNumber_def used_def)
      then show ?thesis using pairwiseIncomparable_insert(1)[of "array a1" d] *
        by (simp add: insertArray_def)
    next
      case False
      with assms(2) Continue s have "a' = a1\<lparr>array := (array a1)[ip := d]\<rparr>"
        by (simp add: getIntermediateFrankNumber_def used_def insertArrayAtPos_def split: if_splits)
      then show ?thesis using pairwiseIncomparable_insert(2)[of "array a1" d ip] * False
        by simp
    qed
  qed
qed

lemma poolRun_inv:
  "pairwiseIncomparable (array a) \<Longrightarrow> poolRun nf nv a ds = Some (nf', a')
    \<Longrightarrow> pairwiseIncomparable (array a')"
proof (induction ds arbitrary: nf a)
  case Nil
  then show ?case by simp
next
  case (Cons d ds)
  then show ?case
    by (auto split: option.splits if_splits dest: getIntermediateFrankNumber_inv)
qed

text \<open>
  Claim C10.  Starting from the empty pool, as long as every call of
  \<^verbatim>\<open>getIntermediateFrankNumber\<close> so far has returned 0 (\<open>poolRun\<close> feeds the sets one after the
  other and stops at the first other result), no stored non-empty set is a subset of another stored
  non-empty set; and every single call that returns 0 preserves this.
\<close>

theorem pool_pairwise_incomparable:
  "(poolRun nf nv (initArray k) ds = Some (nf', a') \<longrightarrow> pairwiseIncomparable (array a')) \<and>
   (pairwiseIncomparable (array a) \<and> getIntermediateFrankNumber nf nv a d = Some (0, nf1, a1)
      \<longrightarrow> pairwiseIncomparable (array a1))"
proof -
  have "pairwiseIncomparable (array (initArray k))"
    by (simp add: initArray_def pairwiseIncomparable_iff)
  then show ?thesis
    using poolRun_inv getIntermediateFrankNumber_inv by blast
qed

definition zeroCounters :: counters where
  "zeroCounters = \<lparr>generatedOrientations = 0, mostGeneratedOrientations = 0, storedBitsets = 0,
     mostStoredBitsets = 0, orientationsGivingSubset = 0, orientationsGivingSuperset = 0,
     emptyBitsetsStored = 0, complementaryBitsets = 0, graphsSatisfyingOddnessCondition = 0,
     graphsNotSatisfyingOddnessCondition = 0, graphsSatisfyingFirstOddness = 0,
     graphsSatisfyingSecondOddness = 0, totalOrientationsGenerated = 0\<rparr>"


text \<open>
  The pool after the sets \<open>{0,2}\<close>, \<open>{0,1}\<close>, \<open>{0,1,2}\<close>, \<open>{3}\<close> over the six edges of a graph on
  four vertices: the superset \<open>{0,1,2}\<close> turns both earlier sets into tombstones and is appended.
\<close>

theorem pool_pairwise_incomparable_witness:
  "map_option snd (poolRun zeroCounters 4 (initArray 2) [5, 3, 7, 8])
     = Some \<lparr>array = [8, 0, 7], size_arr = 4\<rparr> \<and>
   pairwiseIncomparable [8, 0, 7] \<and>
   pairwiseIncomparable [5, 3] \<and>
   map_option (\<lambda>(r, nf, a). (r, a))
     (getIntermediateFrankNumber zeroCounters 4 \<lparr>array = [5, 3], size_arr = 2\<rparr> 7)
     = Some (0, \<lparr>array = [0, 0, 7], size_arr = 4\<rparr>) \<and>
   pairwiseIncomparable [0, 0, 7]"
proof -
  have r: "map_option snd (poolRun zeroCounters 4 (initArray 2) [5, 3, 7, 8])
     = Some \<lparr>array = [8, 0, 7], size_arr = 4\<rparr>"
    by code_simp
  then obtain nf' where
    "poolRun zeroCounters 4 (initArray 2) [5, 3, 7, 8] = Some (nf', \<lparr>array = [8, 0, 7], size_arr = 4\<rparr>)"
    by auto
  then have p1: "pairwiseIncomparable [8, 0, 7]"
    using pool_pairwise_incomparable[where nf=zeroCounters and nv=4 and k=2 and ds="[5, 3, 7, 8]"
        and nf'=nf' and a'="\<lparr>array = [8, 0, 7], size_arr = 4\<rparr>"]
    by simp
  have p0: "pairwiseIncomparable [5, 3]"
    by code_simp
  have g: "map_option (\<lambda>(r, nf, a). (r, a))
     (getIntermediateFrankNumber zeroCounters 4 \<lparr>array = [5, 3], size_arr = 2\<rparr> 7)
     = Some (0, \<lparr>array = [0, 0, 7], size_arr = 4\<rparr>)"
    by code_simp
  then obtain nf1 where "getIntermediateFrankNumber zeroCounters 4 \<lparr>array = [5, 3], size_arr = 2\<rparr> 7
     = Some (0, nf1, \<lparr>array = [0, 0, 7], size_arr = 4\<rparr>)"
    by auto
  then have p2: "pairwiseIncomparable [0, 0, 7]"
    using p0 pool_pairwise_incomparable[where a="\<lparr>array = [5, 3], size_arr = 2\<rparr>" and nf=zeroCounters
        and nv=4 and d=7 and ?nf1.0=nf1 and ?a1.0="\<lparr>array = [0, 0, 7], size_arr = 4\<rparr>"]
    by simp
  show ?thesis using r p1 p0 g p2 by blast
qed

end
